theory Spec2Isabelle
  imports Main "HOL-Library.Word" "HOL-Library.Sublist" "HOL-Library.AList"
begin

section \<open>Wide strings\<close>

text \<open>
  The program works on \<^verbatim>\<open>std::wstring\<close>. A wide character is modelled as a 32-bit word
  (\<^verbatim>\<open>wchar_t\<close> of the GNU/Linux ABI) and a wide string as a list of them. \<open>L\<close> turns a
  string literal into a wide string, as the prefix \<^verbatim>\<open>L"..."\<close> does in the source.
  Indices and lengths are natural numbers: the model is the program on inputs shorter
  than \<open>2^31\<close> characters, where \<^verbatim>\<open>int current_index\<close> and \<^verbatim>\<open>std::size_t\<close> agree.
\<close>

type_synonym wchar = "32 word"
type_synonym wstring = "wchar list"

definition L :: "string \<Rightarrow> wstring" where
  "L s = map of_char s"

text \<open>\<^verbatim>\<open>char c = html_input[current_index]\<close> keeps the low eight bits of the wide character.\<close>

definition to_char :: "wchar \<Rightarrow> 8 word" where
  "to_char w = ucast w"

text \<open>The position of the first occurrence of \<open>pat\<close> in \<open>xs\<close>.\<close>

fun find_sub :: "'a list \<Rightarrow> 'a list \<Rightarrow> nat option" where
  "find_sub pat [] = (if pat = [] then Some 0 else None)"
| "find_sub pat (x # xs) =
     (if prefix pat (x # xs) then Some 0 else map_option Suc (find_sub pat xs))"

text \<open>\<^verbatim>\<open>s.find(pat, pos)\<close>: \<open>None\<close> is \<^verbatim>\<open>npos\<close>.\<close>

definition wfind :: "wstring \<Rightarrow> wstring \<Rightarrow> nat \<Rightarrow> nat option" where
  "wfind s pat pos =
     (if length s < pos then None else map_option (\<lambda>i. pos + i) (find_sub pat (drop pos s)))"

text \<open>
  \<^verbatim>\<open>s.substr(pos, n)\<close> and \<^verbatim>\<open>s.substr(pos)\<close>. The library throws when \<open>pos\<close> is beyond the
  length; every call of the program has \<open>pos \<le> length s\<close> (the position is an index
  that \<^verbatim>\<open>find\<close> returned, or that index plus one, or a constant guarded by a length test).
\<close>

definition substr :: "wstring \<Rightarrow> nat \<Rightarrow> nat \<Rightarrow> wstring" where
  "substr s pos n = take n (drop pos s)"

definition substr_from :: "wstring \<Rightarrow> nat \<Rightarrow> wstring" where
  "substr_from s pos = drop pos s"

text \<open>\<^verbatim>\<open>s.replace(pos, n, str)\<close>.\<close>

definition wreplace :: "wstring \<Rightarrow> nat \<Rightarrow> nat \<Rightarrow> wstring \<Rightarrow> wstring" where
  "wreplace s pos n str = take pos s @ str @ drop (pos + n) s"

text \<open>\<^verbatim>\<open>std::to_wstring\<close> of a non-negative \<^verbatim>\<open>int\<close>.\<close>

fun to_wstring :: "nat \<Rightarrow> wstring" where
  "to_wstring n =
     (if n < 10 then [0x30 + of_nat n] else to_wstring (n div 10) @ [0x30 + of_nat (n mod 10)])"

section \<open>Tables\<close>

datatype exn = Out_of_range | Runtime_error | Invalid_argument | Length_error

text \<open>
  A call either returns, or throws an exception derived from \<^verbatim>\<open>std::exception\<close>, or has
  undefined behaviour (no exception is thrown, so no handler sees it).
\<close>

datatype error = Throws exn | Undefined_behaviour

definition basic_markdown_tags :: "(wstring \<times> wstring \<times> wstring) list" where
  "basic_markdown_tags =
     [(L ''p'', L ''\<newline>\<newline>'', L ''''),
      (L ''strong'', L ''**'', L ''**''),
      (L ''b'', L ''**'', L ''**''),
      (L ''em'', L ''_'', L ''_''),
      (L ''i'', L ''_'', L ''_''),
      (L ''del'', L ''~~'', L ''~~''),
      (L ''ins'', L ''__'', L ''__''),
      (L ''br'', L ''\<newline>'', L ''''),
      (L ''hr'', L ''\<newline>\<newline>_________________\<newline>\<newline>'', L ''''),
      (L ''form'', L ''\<newline>\<newline>[form]\<newline>\<newline>'', L ''''),
      (L ''blockquote'', L ''\<newline>> '', L '''')]"

definition skip_tags :: "wstring list" where
  "skip_tags = [L ''script'', L ''style'', L ''title'']"

text \<open>
  \<^verbatim>\<open>html_entities\<close> is an unordered map: the order in which the parser's loop visits its six
  entries is not fixed by the language. The entries are a datatype, \<open>entity_first\<close> the
  spelling and \<open>entity_second\<close> the replacement; the parser takes the order of the visit
  as a parameter, and \<open>html_entities\<close> is the order of the declaration.
\<close>

datatype entity = Quot | Apos | Amp | Lt | Nbsp | Gt

fun entity_first :: "entity \<Rightarrow> wstring" where
  "entity_first Quot = L ''&quot;''"
| "entity_first Apos = L ''&apos;''"
| "entity_first Amp = L ''&amp;''"
| "entity_first Lt = L ''&lt;''"
| "entity_first Nbsp = L ''&nbsp;''"
| "entity_first Gt = L ''&gt;''"

fun entity_second :: "entity \<Rightarrow> wstring" where
  "entity_second Quot = [0x22]"
| "entity_second Apos = [0x27]"
| "entity_second Amp = L ''&''"
| "entity_second Lt = L ''<''"
| "entity_second Nbsp = L '' ''"
| "entity_second Gt = L ''>''"

definition html_entities :: "entity list" where
  "html_entities = [Quot, Apos, Amp, Lt, Nbsp, Gt]"



definition self_closing_tags :: "wstring list" where
  "self_closing_tags =
     [L ''area'', L ''base'', L ''br'', L ''col'', L ''command'', L ''embed'', L ''hr'',
      L ''img'', L ''input'', L ''keygen'', L ''link'', L ''meta'', L ''param'', L ''source'',
      L ''track'', L ''wbr'']"

section \<open>The tree\<close>

datatype ASTNodeType = ROOT | TEXT | ELEMENT

datatype ASTNode = ASTNode
  (type: ASTNodeType)
  (name: wstring)
  (value_of: wstring)
  (attributes: "(wstring \<times> wstring) list")
  (children: "ASTNode list")

text \<open>
  \<^verbatim>\<open>std::map\<close> as an association list: \<^verbatim>\<open>m[key] = value\<close> is \<open>AList.update\<close>,
  \<^verbatim>\<open>m.find(key)\<close> is \<open>map_of\<close>, and \<^verbatim>\<open>m.at(key)\<close> throws when the key is absent.
\<close>

definition at :: "(wstring \<times> wstring) list \<Rightarrow> wstring \<Rightarrow> error + wstring" where
  "at m key = (case map_of m key of None \<Rightarrow> Inl (Throws Out_of_range) | Some v \<Rightarrow> Inr v)"

section \<open>Tags and attributes\<close>

definition trim_space :: "wchar \<Rightarrow> bool" where
  "trim_space c \<longleftrightarrow> c = 0x20 \<or> c = 0x09 \<or> c = 0x0A \<or> c = 0x0D"

text \<open>
  \<open>Trim\<close>: from the first character that is not one of space, tab, newline and carriage
  return to the last one.
\<close>

definition Trim :: "wstring \<Rightarrow> wstring" where
  "Trim str =
     (let rest = dropWhile trim_space str
      in if rest = [] then [] else rev (dropWhile trim_space (rev rest)))"

definition ParseTag :: "wstring \<Rightarrow> wstring \<times> wstring" where
  "ParseTag tag =
     (case wfind tag (L '' '') 0 of
        None \<Rightarrow> (tag, [])
      | Some space_index \<Rightarrow>
          (substr tag 0 space_index, Trim (substr_from tag (space_index + 1))))"

text \<open>
  \<^verbatim>\<open>attribute_stream >> attribute\<close> reads the next run of characters that are not white
  space; the stream has the classic locale, whose white space is the space and the
  characters 9 to 13.
\<close>

definition iswspace :: "wchar \<Rightarrow> bool" where
  "iswspace c \<longleftrightarrow> c = 0x20 \<or> (0x09 \<le> c \<and> c \<le> 0x0D)"

fun stream_tokens :: "wstring \<Rightarrow> wstring \<Rightarrow> wstring list" where
  "stream_tokens cur [] = (if cur = [] then [] else [cur])"
| "stream_tokens cur (c # cs) =
     (if iswspace c then (if cur = [] then stream_tokens [] cs else cur # stream_tokens [] cs)
      else stream_tokens (cur @ [c]) cs)"

definition parse_attribute ::
  "(wstring \<times> wstring) list \<Rightarrow> wstring \<Rightarrow> (wstring \<times> wstring) list" where
  "parse_attribute attribute_map attribute =
     (case wfind attribute (L ''='') 0 of
        None \<Rightarrow> attribute_map
      | Some equal_index \<Rightarrow>
          (let key = substr attribute 0 equal_index;
               v = substr_from attribute (equal_index + 1);
               v' = (if length v \<ge> 2 \<and> v ! 0 = 0x22 \<and> v ! (length v - 1) = 0x22
                     then substr v 1 (length v - 2) else v)
           in AList.update key v' attribute_map))"

definition ParseAttributes :: "wstring \<Rightarrow> (wstring \<times> wstring) list" where
  "ParseAttributes attrs =
     (if attrs \<noteq> [] then foldl parse_attribute [] (stream_tokens [] attrs) else [])"

section \<open>Entities in text\<close>

text \<open>
  The inner loop of the parser for one entity: find the next occurrence of the spelling
  from \<open>pos\<close>, replace it, and go on behind the replacement.
\<close>

lemma find_sub_bounds:
  "find_sub pat xs = Some i \<Longrightarrow> i + length pat \<le> length xs"
proof (induction xs arbitrary: i)
  case Nil
  then show ?case by (simp split: if_splits)
next
  case (Cons x xs)
  then show ?case by (auto split: if_splits dest: prefix_length_le)
qed

lemma wfind_ge: "wfind s pat pos = Some p \<Longrightarrow> pos \<le> p"
  by (auto simp: wfind_def split: if_splits)

lemma wfind_le: "wfind s pat pos = Some p \<Longrightarrow> p + length pat \<le> length s"
  by (auto simp: wfind_def split: if_splits dest!: find_sub_bounds)

lemma entity_first_nonempty: "entity_first e \<noteq> []"
  by (cases e) (simp_all add: L_def)

function replace_entity :: "entity \<Rightarrow> wstring \<Rightarrow> nat \<Rightarrow> wstring" where
  "replace_entity e text pos =
     (case wfind text (entity_first e) pos of
        None \<Rightarrow> text
      | Some p \<Rightarrow>
          replace_entity e (wreplace text p (length (entity_first e)) (entity_second e))
            (p + length (entity_second e)))"
  by pat_completeness auto
termination
proof (relation "measure (\<lambda>(e, text, pos). length text - pos)")
  show "wf (measure (\<lambda>(e, text, pos). length text - pos))" by simp
next
  fix e :: entity and t :: wstring and pos p :: nat
  assume f: "wfind t (entity_first e) pos = Some p"
  have "pos \<le> p" "p + length (entity_first e) \<le> length t" "0 < length (entity_first e)"
    using wfind_ge [OF f] wfind_le [OF f] entity_first_nonempty [of e] by simp_all
  then show "((e, wreplace t p (length (entity_first e)) (entity_second e),
               p + length (entity_second e)), (e, t, pos))
             \<in> measure (\<lambda>(e, text, pos). length text - pos)"
    by (simp add: wreplace_def del: length_greater_0_conv)
qed

declare replace_entity.simps [simp del]

text \<open>The outer loop: one scan of the text per entity, in the order of the visit.\<close>

definition decode_entities :: "entity list \<Rightarrow> wstring \<Rightarrow> wstring" where
  "decode_entities es text = fold (\<lambda>e t. replace_entity e t 0) es text"

section \<open>The parser\<close>

text \<open>
  The parser keeps a stack of pointers to the open nodes and appends through the last
  one. A pointer is the path from the root to the node (the index of the child taken at
  each level): \<open>[]\<close> is \<^verbatim>\<open>&root\<close>. The program only ever appends to the children of the
  node on top of the stack, and every pointer below the top points to an ancestor of
  it, so that no vector holding a pointed-to node grows while the pointer is in use.
  Reading through a pointer of an empty stack is undefined behaviour.
\<close>

type_synonym node_ptr = "nat list"

fun deref :: "ASTNode \<Rightarrow> node_ptr \<Rightarrow> ASTNode option" where
  "deref n [] = Some n"
| "deref n (i # p) = (if i < length (children n) then deref (children n ! i) p else None)"

fun update_at :: "node_ptr \<Rightarrow> (ASTNode \<Rightarrow> ASTNode) \<Rightarrow> ASTNode \<Rightarrow> ASTNode" where
  "update_at [] f n = f n"
| "update_at (i # p) f (ASTNode ty nm v as cs) =
     ASTNode ty nm v as (cs[i := update_at p f (cs ! i)])"

definition push_back_child :: "ASTNode \<Rightarrow> ASTNode \<Rightarrow> ASTNode" where
  "push_back_child c n = ASTNode (type n) (name n) (value_of n) (attributes n) (children n @ [c])"

record parse_state =
  root :: ASTNode
  stack :: "node_ptr list"

text \<open>\<^verbatim>\<open>stack.back()\<close>, with the node it points to.\<close>

definition stack_back :: "parse_state \<Rightarrow> error + (node_ptr \<times> ASTNode)" where
  "stack_back st =
     (if stack st = [] then Inl Undefined_behaviour
      else case deref (root st) (last (stack st)) of
             None \<Rightarrow> Inl Undefined_behaviour
           | Some n \<Rightarrow> Inr (last (stack st), n))"

text \<open>The branch of the loop for a tag that is neither a comment nor a skipped tag.\<close>

definition parse_element_tag :: "wstring \<Rightarrow> parse_state \<Rightarrow> error + parse_state" where
  "parse_element_tag tag0 st =
     (let is_closing_tag = (tag0 \<noteq> [] \<and> tag0 ! 0 = 0x2F);
          tag = (if is_closing_tag then substr_from tag0 1 else tag0);
          (tag_name, attrs) = ParseTag tag;
          node = ASTNode ELEMENT tag_name []
                   (if attrs \<noteq> [] \<and> \<not> is_closing_tag then ParseAttributes attrs else []) []
      in if \<not> is_closing_tag then
           (case stack_back st of
              Inl e \<Rightarrow> Inl e
            | Inr (p, top_node) \<Rightarrow>
                (let root' = update_at p (push_back_child node) (root st)
                 in if tag_name \<notin> set self_closing_tags
                    then Inr \<lparr>root = root', stack = stack st @ [p @ [length (children top_node)]]\<rparr>
                    else Inr \<lparr>root = root', stack = stack st\<rparr>))
         else
           (case stack_back st of
              Inl e \<Rightarrow> Inl e
            | Inr (p, top_node) \<Rightarrow>
                if name top_node \<noteq> tag_name then Inl (Throws Runtime_error)
                else Inr \<lparr>root = root st, stack = butlast (stack st)\<rparr>))"

text \<open>One turn of the loop at \<open>current_index\<close>: the next index and the state.\<close>

definition parse_step ::
  "entity list \<Rightarrow> wstring \<Rightarrow> nat \<Rightarrow> parse_state \<Rightarrow> error + (nat \<times> parse_state)" where
  "parse_step es html_input current_index st =
     (if to_char (html_input ! current_index) = 0x3C then
        (case wfind html_input (L ''>'') current_index of
           None \<Rightarrow> Inl (Throws Out_of_range)
         | Some end_tag_index \<Rightarrow>
             (let tag = substr html_input (current_index + 1) (end_tag_index - current_index - 1)
              in if substr tag 0 3 = L ''!--'' then
                   (case wfind html_input (L ''-->'') current_index of
                      None \<Rightarrow> Inl (Throws Out_of_range)
                    | Some end_comment_index \<Rightarrow> Inr (end_comment_index + 3, st))
                 else if tag \<in> set skip_tags then
                   (case wfind html_input (L ''</'' @ tag @ L ''>'') current_index of
                      None \<Rightarrow> Inl (Throws Out_of_range)
                    | Some end_skip_index \<Rightarrow> Inr (end_skip_index + length tag + 3, st))
                 else
                   (case parse_element_tag tag st of
                      Inl e \<Rightarrow> Inl e
                    | Inr st' \<Rightarrow> Inr (end_tag_index + 1, st'))))
      else
        (let end_text_index =
               (case wfind html_input (L ''<'') current_index of
                  None \<Rightarrow> length html_input
                | Some i \<Rightarrow> i);
             text = decode_entities es
                      (substr html_input current_index (end_text_index - current_index))
         in case stack_back st of
              Inl e \<Rightarrow> Inl e
            | Inr (p, top_node) \<Rightarrow>
                Inr (end_text_index,
                     \<lparr>root = update_at p (push_back_child (ASTNode TEXT [] text [] [])) (root st),
                      stack = stack st\<rparr>)))"

lemma find_sub_at:
  "find_sub pat xs = Some i \<Longrightarrow> take (length pat) (drop i xs) = pat"
proof (induction xs arbitrary: i)
  case Nil
  then show ?case by (simp split: if_splits)
next
  case (Cons x xs)
  then show ?case by (auto split: if_splits simp: prefix_def)
qed

lemma wfind_at: "wfind s pat pos = Some p \<Longrightarrow> take (length pat) (drop p s) = pat"
  by (auto simp: wfind_def add.commute split: if_splits dest!: find_sub_at)

lemma wfind_char_at:
  assumes "wfind s [c] pos = Some p"
  shows "p < length s" and "s ! p = c"
proof -
  from wfind_le [OF assms] show lt: "p < length s" by simp
  from wfind_at [OF assms] have "take 1 (drop p s) = [c]" by simp
  with lt show "s ! p = c"
    by (metis Cons_nth_drop_Suc One_nat_def list.inject take_Suc_Cons)
qed

lemma parse_step_advances:
  assumes "parse_step es html_input i st = Inr (i', st')" and "i < length html_input"
  shows "i < i'"
proof (cases "to_char (html_input ! i) = 0x3C")
  case True
  with assms(1) show ?thesis
    by (auto simp: parse_step_def Let_def split: option.splits if_splits sum.splits
        dest!: wfind_ge)
next
  case False
  then have ne: "html_input ! i \<noteq> 0x3C" by (auto simp: to_char_def)
  show ?thesis
  proof (cases "wfind html_input (L ''<'') i")
    case None
    with False assms show ?thesis
      by (auto simp: parse_step_def Let_def split: sum.splits)
  next
    case (Some j)
    then have j: "wfind html_input [0x3C] i = Some j" by (simp add: L_def)
    from wfind_ge [OF j] wfind_char_at(2) [OF j] ne have "i < j"
      by (cases "i = j") auto
    with False Some assms show ?thesis
      by (auto simp: parse_step_def Let_def split: sum.splits)
  qed
qed

function ParseLoop :: "entity list \<Rightarrow> wstring \<Rightarrow> nat \<Rightarrow> parse_state \<Rightarrow> error + ASTNode" where
  "ParseLoop es html_input current_index st =
     (if current_index < length html_input then
        (case parse_step es html_input current_index st of
           Inl e \<Rightarrow> Inl e
         | Inr (next_index, st') \<Rightarrow> ParseLoop es html_input next_index st')
      else Inr (root st))"
  by pat_completeness auto
termination
proof (relation "measure (\<lambda>(es, html_input, i, st). length html_input - i)")
  show "wf (measure (\<lambda>(es, html_input, i, st). length html_input - i))" by simp
next
  fix es :: "entity list" and html_input :: wstring and current_index :: nat
    and st :: parse_state and x2 :: "nat \<times> parse_state" and next_index :: nat
    and st' :: parse_state
  assume "current_index < length html_input"
    and "parse_step es html_input current_index st = Inr x2"
    and "(next_index, st') = x2"
  then have "current_index < next_index"
    using parse_step_advances [of es html_input current_index st next_index st'] by simp
  with \<open>current_index < length html_input\<close>
  show "((es, html_input, next_index, st'), (es, html_input, current_index, st))
        \<in> measure (\<lambda>(es, html_input, i, st). length html_input - i)"
    by simp
qed

declare ParseLoop.simps [simp del]

definition ParseHTMLToAST :: "entity list \<Rightarrow> wstring \<Rightarrow> error + ASTNode" where
  "ParseHTMLToAST es html_input =
     ParseLoop es html_input 0 \<lparr>root = ASTNode ROOT [] [] [] [], stack = [[]]\<rparr>"

section \<open>The renderer\<close>

text \<open>What follows a call that returned; an exception or undefined behaviour ends the caller too.\<close>

definition on_return :: "error + 'a \<Rightarrow> ('a \<Rightarrow> error + 'b) \<Rightarrow> error + 'b" where
  "on_return r f = (case r of Inl e \<Rightarrow> Inl e | Inr x \<Rightarrow> f x)"

text \<open>
  \<^verbatim>\<open>std::stoi\<close>: white space, an optional sign, then decimal digits; no digit is
  \<^verbatim>\<open>invalid_argument\<close>, a value that does not fit an \<^verbatim>\<open>int\<close> is \<^verbatim>\<open>out_of_range\<close>.
\<close>

definition is_digit :: "wchar \<Rightarrow> bool" where
  "is_digit c \<longleftrightarrow> 0x30 \<le> c \<and> c \<le> 0x39"

definition stoi :: "wstring \<Rightarrow> error + int" where
  "stoi str =
     (let s1 = dropWhile iswspace str;
          negative = (s1 \<noteq> [] \<and> s1 ! 0 = 0x2D);
          s2 = (if s1 \<noteq> [] \<and> (s1 ! 0 = 0x2B \<or> s1 ! 0 = 0x2D) then drop 1 s1 else s1);
          digits = takeWhile is_digit s2
      in if digits = [] then Inl (Throws Invalid_argument)
         else (let v = foldl (\<lambda>a d. 10 * a + uint (d - 0x30)) 0 digits;
                   r = (if negative then - v else v)
               in if r < - (2 ^ 31) \<or> 2 ^ 31 \<le> r then Inl (Throws Out_of_range) else Inr r))"

text \<open>
  The body of the loop of \<open>AstToMarkdown\<close> for one child. \<open>node_name\<close> is the name of the
  node whose children are rendered and \<open>list_prefix\<close> the prefix computed on entry.
  \<open>inner\<close> is the result of \<^verbatim>\<open>AstToMarkdown(child)\<close> and \<open>table_text\<close> the result of the table
  loops over the children of the child; each is consulted only in the branches that make
  that call, at the place where they make it. The result is the text appended to
  \<^verbatim>\<open>markdown\<close> with the new values of \<^verbatim>\<open>list_level\<close> and \<^verbatim>\<open>counters\<close>.
\<close>

definition render_child ::
  "wstring \<Rightarrow> wstring \<Rightarrow> ASTNode \<Rightarrow> error + wstring \<Rightarrow> error + wstring \<Rightarrow> nat \<times> nat list
     \<Rightarrow> error + (wstring \<times> nat \<times> nat list)" where
  "render_child node_name list_prefix child inner table_text lc =
     (let list_level = fst lc; counters = snd lc in
      case type child of
        ROOT \<Rightarrow> on_return inner (\<lambda>md. Inr (md, list_level, counters))
      | TEXT \<Rightarrow> Inr (value_of child, list_level, counters)
      | ELEMENT \<Rightarrow>
          if map_of (attributes child) (L ''class'') = Some (L ''hidden'')
          then Inr ([], list_level, counters)
          else
            (case map_of basic_markdown_tags (name child) of
               Some (pre, suf) \<Rightarrow>
                 on_return inner (\<lambda>md.
                   Inr (pre @ md @ suf @
                        (if name child = L ''p'' \<or> name child = L ''hr''
                            \<or> substr (name child) 0 1 = L ''h''
                         then L ''\<newline>'' else []),
                        list_level, counters))
             | None \<Rightarrow>
                 if name child = L ''a'' then
                   on_return (at (attributes child) (L ''href'')) (\<lambda>href.
                   on_return inner (\<lambda>inner_text.
                     Inr (if inner_text = [] then href
                          else L ''['' @ inner_text @ L '']('' @ href @ L '')'',
                          list_level, counters)))
                 else if name child = L ''li'' then
                   (if node_name = L ''ol'' then
                      (if counters = [] then Inl Undefined_behaviour
                       else on_return inner (\<lambda>md.
                         Inr (L ''\<newline>'' @ list_prefix @ to_wstring (last counters) @ L ''. '' @ md,
                              list_level, butlast counters @ [last counters + 1])))
                    else on_return inner (\<lambda>md.
                      Inr (L ''\<newline>'' @ list_prefix @ L ''- '' @ md, list_level, counters)))
                 else if name child = L ''ol'' \<or> name child = L ''ul'' then
                   on_return inner (\<lambda>md.
                     Inr (L ''\<newline>'' @ md, list_level + 1 - 1, butlast (counters @ [1])))
                 else if name child = L ''img'' then
                   on_return (at (attributes child) (L ''src'')) (\<lambda>src.
                   on_return (at (attributes child) (L ''alt'')) (\<lambda>alt.
                     Inr (L ''!['' @ alt @ L '']('' @ src @ L '')\<newline>'', list_level, counters)))
                 else if name child = L ''code'' then
                   (if node_name \<noteq> [] \<and> node_name \<noteq> L ''pre'' then
                      on_return inner (\<lambda>md.
                        Inr (L ''```'' @ md @ L ''```\<newline>'', list_level, counters))
                    else on_return inner (\<lambda>md. Inr (md, list_level, counters)))
                 else if substr (name child) 0 1 = L ''h'' \<and> length (name child) = 2 then
                   on_return (stoi (substr (name child) 1 1)) (\<lambda>header_level.
                     if header_level < 0 then Inl (Throws Length_error)
                     else on_return inner (\<lambda>md.
                       Inr (L ''\<newline>'' @ replicate (nat header_level) 0x23 @ L '' '' @ md
                              @ L ''\<newline>'',
                            list_level, counters)))
                 else if name child = L ''input'' then
                   on_return (at (attributes child) (L ''type'')) (\<lambda>ty.
                     Inr (L ''\<newline>\<newline>[input: '' @ ty @ L '']\<newline>\<newline>'', list_level, counters))
                 else if name child = L ''label'' then
                   on_return (at (attributes child) (L ''value'')) (\<lambda>v.
                     Inr (L ''\<newline>\<newline>[label: '' @ v @ L '']\<newline>\<newline>'', list_level, counters))
                 else if name child = L ''table'' then
                   on_return table_text (\<lambda>t. Inr (t, list_level, counters))
                 else on_return inner (\<lambda>md. Inr (md, list_level, counters))))"

record table_acc =
  header_row :: wstring
  separator_row :: wstring
  body_rows :: wstring
  footer_rows :: wstring
  caption_text :: wstring

lemma size_children:
  "size_list size (children n) < size n" "size_list size (children n) < Suc (size n + k)"
  by (cases n; simp)+

text \<open>
  \<open>AstToMarkdown\<close> with its loops. \<open>children_loop\<close> is the loop over the children, with
  \<^verbatim>\<open>markdown\<close>, \<^verbatim>\<open>list_level\<close> and \<^verbatim>\<open>counters\<close> as state; every recursive call of the source
  is \<^verbatim>\<open>AstToMarkdown(child)\<close>, with the default \<open>0\<close> for \<^verbatim>\<open>list_level\<close>. \<open>table_loop\<close> is
  the loop over the children of a table, \<open>rows_loop\<close> the loop over the children of a
  \<^verbatim>\<open>thead\<close>, \<^verbatim>\<open>tbody\<close> or \<^verbatim>\<open>tfoot\<close> (the name says which strings the row is added to) and
  \<open>cells_loop\<close> the loop over the children of a row (the flag says whether the row
  is under \<^verbatim>\<open>thead\<close>, where every cell also adds to the separator row).
\<close>

function AstToMarkdown :: "ASTNode \<Rightarrow> nat \<Rightarrow> error + wstring"
  and children_loop ::
    "wstring \<Rightarrow> wstring \<Rightarrow> ASTNode list \<Rightarrow> wstring \<Rightarrow> nat \<times> nat list \<Rightarrow> error + wstring"
  and table_loop :: "ASTNode list \<Rightarrow> table_acc \<Rightarrow> error + table_acc"
  and rows_loop :: "wstring \<Rightarrow> ASTNode list \<Rightarrow> table_acc \<Rightarrow> error + table_acc"
  and cells_loop :: "bool \<Rightarrow> ASTNode list \<Rightarrow> wstring \<times> wstring \<Rightarrow> error + wstring \<times> wstring"
where
  "AstToMarkdown node list_level =
     children_loop (name node) (replicate list_level 0x09) (children node) []
       (list_level, [1])"
| "children_loop node_name list_prefix [] markdown lc = Inr markdown"
| "children_loop node_name list_prefix (child # rest) markdown lc =
     (case render_child node_name list_prefix child (AstToMarkdown child 0)
             (on_return
                (table_loop (children child)
                   \<lparr>header_row = [], separator_row = [], body_rows = [], footer_rows = [],
                    caption_text = []\<rparr>)
                (\<lambda>t. Inr (caption_text t @ header_row t @ separator_row t @ body_rows t
                            @ footer_rows t)))
             lc of
        Inl e \<Rightarrow> Inl e
      | Inr (text, lc') \<Rightarrow> children_loop node_name list_prefix rest (markdown @ text) lc')"
| "table_loop [] acc = Inr acc"
| "table_loop (table_child # rest) acc =
     (if name table_child = L ''tr'' then
        (case cells_loop False (children table_child) ([], separator_row acc) of
           Inl e \<Rightarrow> Inl e
         | Inr (row_text, sep) \<Rightarrow>
             table_loop rest (acc\<lparr>body_rows := body_rows acc @ row_text @ L ''|\<newline>''\<rparr>))
      else if name table_child = L ''thead'' \<or> name table_child = L ''tbody'' then
        (case rows_loop (name table_child) (children table_child) acc of
           Inl e \<Rightarrow> Inl e
         | Inr acc' \<Rightarrow> table_loop rest acc')
      else if name table_child = L ''tfoot'' then
        (case rows_loop (name table_child) (children table_child) acc of
           Inl e \<Rightarrow> Inl e
         | Inr acc' \<Rightarrow> table_loop rest acc')
      else if name table_child = L ''caption'' then
        (case AstToMarkdown table_child 0 of
           Inl e \<Rightarrow> Inl e
         | Inr md \<Rightarrow>
             table_loop rest (acc\<lparr>caption_text := L ''\<newline>**'' @ md @ L ''**\<newline>''\<rparr>))
      else table_loop rest acc)"
| "rows_loop section_name [] acc = Inr acc"
| "rows_loop section_name (row # rest) acc =
     (if name row = L ''tr'' then
        (case cells_loop (section_name = L ''thead'') (children row) ([], separator_row acc) of
           Inl e \<Rightarrow> Inl e
         | Inr (row_text, sep) \<Rightarrow>
             rows_loop section_name rest
               (if section_name = L ''thead'' then
                  acc\<lparr>separator_row := sep @ L ''|\<newline>'',
                      header_row := header_row acc @ row_text @ L ''|\<newline>''\<rparr>
                else if section_name = L ''tfoot'' then
                  acc\<lparr>footer_rows := footer_rows acc @ row_text @ L ''|\<newline>''\<rparr>
                else acc\<lparr>body_rows := body_rows acc @ row_text @ L ''|\<newline>''\<rparr>))
      else rows_loop section_name rest acc)"
| "cells_loop in_thead [] rs = Inr rs"
| "cells_loop in_thead (cell # rest) rs =
     (if name cell = L ''td'' \<or> name cell = L ''th'' then
        (case AstToMarkdown cell 0 of
           Inl e \<Rightarrow> Inl e
         | Inr md \<Rightarrow>
             cells_loop in_thead rest
               (fst rs @ L ''|'' @ md, if in_thead then snd rs @ L ''|---'' else snd rs))
      else cells_loop in_thead rest rs)"
  by pat_completeness auto
termination
  by (relation "measure (\<lambda>x. case x of
        Inl (Inl (node, l)) \<Rightarrow> size node
      | Inl (Inr (nn, lp, cs, md, lc)) \<Rightarrow> size_list size cs
      | Inr (Inl (cs, acc)) \<Rightarrow> size_list size cs
      | Inr (Inr (Inl (sn, cs, acc))) \<Rightarrow> size_list size cs
      | Inr (Inr (Inr (th, cs, rs))) \<Rightarrow> size_list size cs)")
    (auto simp: size_children)

section \<open>The driver\<close>

definition tags :: "wstring list" where
  "tags =
     [L ''<html'', L ''<head'', L ''<body'', L ''<div'', L ''<p'', L ''<a'', L ''<img'',
      L ''<span'', L ''<table'', L ''<tr'', L ''<td'', L ''<ul'', L ''<li'', L ''<h1'',
      L ''<h2'', L ''<h3'', L ''<h4'', L ''<h5'', L ''<h6'', L ''</html'', L ''</head'',
      L ''</body'', L ''</div'', L ''</p'', L ''</a'', L ''</img'', L ''</span'',
      L ''</table'', L ''</tr'', L ''</td'', L ''</ul'', L ''</li'', L ''</h1'', L ''</h2'',
      L ''</h3'', L ''</h4'', L ''</h5'', L ''</h6'']"

text \<open>
  The handler catches \<^verbatim>\<open>std::exception\<close>, so every exception of the parser and of the
  renderer; undefined behaviour is not an exception.
\<close>

definition ConvertHTMLToMarkdown :: "entity list \<Rightarrow> wstring \<Rightarrow> error + wstring" where
  "ConvertHTMLToMarkdown es html_input =
     (if list_ex (\<lambda>tag. wfind html_input tag 0 \<noteq> None) tags then
        (case on_return (ParseHTMLToAST es html_input) (\<lambda>ast. AstToMarkdown ast 0) of
           Inl (Throws e) \<Rightarrow> Inr html_input
         | Inl Undefined_behaviour \<Rightarrow> Inl Undefined_behaviour
         | Inr markdown \<Rightarrow> Inr markdown)
      else Inr html_input)"

section \<open>Inputs without an ampersand\<close>

text \<open>
  Every spelling of the entity table has an ampersand, so a text without one is left as
  it is by every visit of the table, and the parse of an input without an ampersand
  does not depend on the order of the visit.
\<close>

lemma wfind_set: "wfind s pat pos = Some p \<Longrightarrow> set pat \<subseteq> set s"
proof -
  assume "wfind s pat pos = Some p"
  then have "take (length pat) (drop p s) = pat" by (rule wfind_at)
  then have "set pat = set (take (length pat) (drop p s))" by simp
  also have "\<dots> \<subseteq> set s"
    by (meson set_drop_subset set_take_subset subset_trans)
  finally show ?thesis .
qed

lemma amp_in_entity_first: "0x26 \<in> set (entity_first e)"
  by (cases e) (simp_all add: L_def)

lemma replace_entity_no_amp: "0x26 \<notin> set t \<Longrightarrow> replace_entity e t 0 = t"
  using wfind_set [of t "entity_first e" 0] amp_in_entity_first [of e]
  by (subst replace_entity.simps) (auto split: option.splits)

lemma decode_entities_no_amp: "0x26 \<notin> set t \<Longrightarrow> decode_entities es t = t"
  unfolding decode_entities_def
  by (induction es) (simp_all add: replace_entity_no_amp)

lemma substr_set: "set (substr s pos n) \<subseteq> set s"
  unfolding substr_def by (meson set_drop_subset set_take_subset subset_trans)

lemma parse_step_no_amp:
  "0x26 \<notin> set html_input \<Longrightarrow> parse_step es html_input i st = parse_step es' html_input i st"
proof -
  assume a: "0x26 \<notin> set html_input"
  have "0x26 \<notin> set (substr html_input i n)" for n
    using a substr_set [of html_input i n] by blast
  then have "decode_entities es (substr html_input i n) = decode_entities es' (substr html_input i n)" for n
    by (simp add: decode_entities_no_amp)
  then show ?thesis by (simp add: parse_step_def)
qed

lemma ParseLoop_no_amp:
  "0x26 \<notin> set html_input \<Longrightarrow> ParseLoop es html_input i st = ParseLoop es' html_input i st"
proof (induction es html_input i st rule: ParseLoop.induct)
  case (1 es html_input current_index st)
  show ?case
  proof (cases "current_index < length html_input")
    case False
    then show ?thesis by (simp add: ParseLoop.simps)
  next
    case True
    note step = parse_step_no_amp [OF "1.prems", of es current_index st es']
    show ?thesis
    proof (cases "parse_step es html_input current_index st")
      case (Inl e)
      with True step [symmetric] show ?thesis
        by (simp add: ParseLoop.simps [of es html_input current_index]
            ParseLoop.simps [of es' html_input current_index])
    next
      case (Inr x)
      obtain ni st' where x: "x = (ni, st')" by (cases x)
      from "1.IH" [OF True Inr x [symmetric] "1.prems"] True Inr x step [symmetric] show ?thesis
        by (simp add: ParseLoop.simps [of es html_input current_index]
            ParseLoop.simps [of es' html_input current_index])
    qed
  qed
qed

lemma Convert_no_amp:
  "0x26 \<notin> set html_input \<Longrightarrow>
   ConvertHTMLToMarkdown es html_input = ConvertHTMLToMarkdown html_entities html_input"
  by (simp add: ConvertHTMLToMarkdown_def ParseHTMLToAST_def
      ParseLoop_no_amp [of html_input es _ _ html_entities])


section \<open>Properties of trees and of the renderer\<close>

text \<open>
  \<open>void_childless t\<close>: no node of \<open>t\<close> whose name is in \<^verbatim>\<open>self_closing_tags\<close> has a child.
  \<open>open_nodes_ok st\<close> is the invariant of the parser's loop: the tree is \<open>void_childless\<close>,
  and every pointer of the stack points to a node of the tree whose name is not in
  \<^verbatim>\<open>self_closing_tags\<close>.
\<close>

fun void_childless :: "ASTNode \<Rightarrow> bool" where
  "void_childless (ASTNode ty nm v as cs) \<longleftrightarrow>
     (nm \<in> set self_closing_tags \<longrightarrow> cs = []) \<and> (\<forall>c \<in> set cs. void_childless c)"

definition open_nodes_ok :: "parse_state \<Rightarrow> bool" where
  "open_nodes_ok st \<longleftrightarrow>
     void_childless (root st) \<and>
     (\<forall>p \<in> set (stack st). \<exists>n. deref (root st) p = Some n \<and> name n \<notin> set self_closing_tags)"




text \<open>
  \<open>child_result_ok r\<close>: the body of the renderer's loop did not leave defined behaviour,
  and it left \<^verbatim>\<open>counters\<close> non-empty.
\<close>

definition child_result_ok :: "error + (wstring \<times> nat \<times> nat list) \<Rightarrow> bool" where
  "child_result_ok r \<longleftrightarrow>
     (case r of Inl e \<Rightarrow> e \<noteq> Undefined_behaviour | Inr (t, l, c) \<Rightarrow> c \<noteq> [])"


text \<open>
  \<open>required_attribute_missing c\<close>: \<open>c\<close> has one of the names for which the renderer reads
  an attribute with \<^verbatim>\<open>at\<close>, and that attribute is absent.
\<close>

definition required_attribute_missing :: "ASTNode \<Rightarrow> bool" where
  "required_attribute_missing c \<longleftrightarrow>
     name c = L ''a'' \<and> map_of (attributes c) (L ''href'') = None
     \<or> name c = L ''img'' \<and> (map_of (attributes c) (L ''src'') = None
                               \<or> map_of (attributes c) (L ''alt'') = None)
     \<or> name c = L ''input'' \<and> map_of (attributes c) (L ''type'') = None
     \<or> name c = L ''label'' \<and> map_of (attributes c) (L ''value'') = None"


section \<open>The invariant of the parser\<close>

lemma name_push_back_child [simp]: "name (push_back_child c n) = name n"
  by (simp add: push_back_child_def)

lemma children_push_back_child [simp]: "children (push_back_child c n) = children n @ [c]"
  by (simp add: push_back_child_def)

lemma name_update_at: "name (update_at p (push_back_child c) t) = name t"
  by (cases p; cases t) simp_all

lemma deref_update_at_name:
  "deref t q = Some n \<Longrightarrow>
   \<exists>n'. deref (update_at p (push_back_child c) t) q = Some n' \<and> name n' = name n"
proof (induction q arbitrary: t p)
  case Nil
  then show ?case by (simp add: name_update_at)
next
  case (Cons i q)
  obtain ty nm v as cs where t: "t = ASTNode ty nm v as cs" by (cases t)
  from Cons.prems t have i: "i < length cs" and d: "deref (cs ! i) q = Some n"
    by (auto split: if_splits)
  show ?case
  proof (cases p)
    case Nil
    with t i d show ?thesis by (simp add: nth_append)
  next
    case (Cons j p')
    show ?thesis
    proof (cases "i = j")
      case True
      from Cons.IH [OF d, of p'] t i True Cons show ?thesis by simp
    next
      case False
      with t i d Cons show ?thesis by simp
    qed
  qed
qed

lemma void_childless_update_at:
  "void_childless t \<Longrightarrow> deref t p = Some n \<Longrightarrow> name n \<notin> set self_closing_tags \<Longrightarrow>
   void_childless c \<Longrightarrow> void_childless (update_at p (push_back_child c) t)"
proof (induction p arbitrary: t)
  case Nil
  then show ?case by (cases t) (auto simp: push_back_child_def)
next
  case (Cons i p)
  obtain ty nm v as cs where t: "t = ASTNode ty nm v as cs" by (cases t)
  from Cons.prems t have i: "i < length cs" and d: "deref (cs ! i) p = Some n"
    by (auto split: if_splits)
  from Cons.prems(1) t i have "void_childless (cs ! i)" by simp
  from Cons.IH [OF this d Cons.prems(3,4)]
  have new: "void_childless (update_at p (push_back_child c) (cs ! i))" .
  have "void_childless x" if "x \<in> set (cs[i := update_at p (push_back_child c) (cs ! i)])" for x
    using that new Cons.prems(1) t set_update_subset_insert [of cs i] by auto
  with Cons.prems(1) t i show ?case by auto
qed

lemma deref_pushed:
  "deref t p = Some n \<Longrightarrow>
   deref (update_at p (push_back_child c) t) (p @ [length (children n)]) = Some c"
proof (induction p arbitrary: t)
  case Nil
  then show ?case by simp
next
  case (Cons i p)
  obtain ty nm v as cs where t: "t = ASTNode ty nm v as cs" by (cases t)
  from Cons.prems t have i: "i < length cs" and d: "deref (cs ! i) p = Some n"
    by (auto split: if_splits)
  from Cons.IH [OF d] t i show ?case by simp
qed

lemma stack_back_ok:
  assumes "open_nodes_ok st" and "stack_back st = Inr (p, top_node)"
  shows "p \<in> set (stack st)" and "deref (root st) p = Some top_node"
    and "name top_node \<notin> set self_closing_tags"
proof -
  from assms(2) have ne: "stack st \<noteq> []" and p: "p = last (stack st)"
    and d: "deref (root st) p = Some top_node"
    by (auto simp: stack_back_def split: if_splits option.splits)
  from ne p show "p \<in> set (stack st)" by simp
  with assms(1) d show "name top_node \<notin> set self_closing_tags"
    by (auto simp: open_nodes_ok_def)
  from d show "deref (root st) p = Some top_node" .
qed

lemma push_child_ok:
  assumes ok: "open_nodes_ok st" and b: "stack_back st = Inr (p, top_node)"
    and c: "void_childless c"
  shows "open_nodes_ok \<lparr>root = update_at p (push_back_child c) (root st), stack = stack st\<rparr>"
  unfolding open_nodes_ok_def
proof (intro conjI ballI)
  show "void_childless (root \<lparr>root = update_at p (push_back_child c) (root st), stack = stack st\<rparr>)"
    using void_childless_update_at [OF _ stack_back_ok(2,3) [OF ok b] c] ok
    by (simp add: open_nodes_ok_def)
next
  fix q
  assume "q \<in> set (stack \<lparr>root = update_at p (push_back_child c) (root st), stack = stack st\<rparr>)"
  then have "q \<in> set (stack st)" by simp
  with ok obtain n where "deref (root st) q = Some n" "name n \<notin> set self_closing_tags"
    by (auto simp: open_nodes_ok_def)
  with deref_update_at_name [of "root st" q n p c]
  show "\<exists>n. deref (root \<lparr>root = update_at p (push_back_child c) (root st), stack = stack st\<rparr>) q
              = Some n \<and> name n \<notin> set self_closing_tags"
    by auto
qed

lemma push_open_ok:
  assumes ok: "open_nodes_ok st" and b: "stack_back st = Inr (p, top_node)"
    and c: "void_childless c" and nv: "name c \<notin> set self_closing_tags"
  shows "open_nodes_ok \<lparr>root = update_at p (push_back_child c) (root st),
                         stack = stack st @ [p @ [length (children top_node)]]\<rparr>"
proof -
  from push_child_ok [OF ok b c]
  have 1: "open_nodes_ok \<lparr>root = update_at p (push_back_child c) (root st), stack = stack st\<rparr>" .
  from deref_pushed [OF stack_back_ok(2) [OF ok b], of c] nv
  have "\<exists>n. deref (update_at p (push_back_child c) (root st)) (p @ [length (children top_node)])
             = Some n \<and> name n \<notin> set self_closing_tags"
    by simp
  with 1 show ?thesis by (auto simp: open_nodes_ok_def)
qed

lemma pop_ok:
  "open_nodes_ok st \<Longrightarrow> open_nodes_ok \<lparr>root = root st, stack = butlast (stack st)\<rparr>"
  by (auto simp: open_nodes_ok_def dest: in_set_butlastD)

lemma parse_element_tag_ok:
  assumes "parse_element_tag tag st = Inr st'" and "open_nodes_ok st"
  shows "open_nodes_ok st'"
  using assms
  by (auto simp: parse_element_tag_def Let_def split: prod.splits if_splits sum.splits
      intro!: push_open_ok push_child_ok pop_ok)

lemma parse_step_ok:
  assumes "parse_step es html_input i st = Inr (i', st')" and "open_nodes_ok st"
  shows "open_nodes_ok st'"
  using assms
  by (auto simp: parse_step_def Let_def split: option.splits if_splits sum.splits
      intro!: push_child_ok dest: parse_element_tag_ok)

lemma ParseLoop_ok:
  "ParseLoop es html_input i st = Inr t \<Longrightarrow> open_nodes_ok st \<Longrightarrow> void_childless t"
proof (induction es html_input i st rule: ParseLoop.induct)
  case (1 es html_input current_index st)
  show ?case
  proof (cases "current_index < length html_input")
    case False
    with "1.prems" show ?thesis by (simp add: ParseLoop.simps open_nodes_ok_def)
  next
    case True
    with "1.prems"(1) obtain ni st' where
      step: "parse_step es html_input current_index st = Inr (ni, st')"
      and rest: "ParseLoop es html_input ni st' = Inr t"
      by (subst (asm) ParseLoop.simps) (auto split: sum.splits)
    from "1.IH" [OF True step refl rest parse_step_ok [OF step "1.prems"(2)]]
    show ?thesis .
  qed
qed


lemma deref_void_childless:
  "void_childless t \<Longrightarrow> deref t p = Some n \<Longrightarrow> void_childless n"
proof (induction p arbitrary: t)
  case Nil
  then show ?case by simp
next
  case (Cons i p)
  obtain ty nm v as cs where t: "t = ASTNode ty nm v as cs" by (cases t)
  from Cons.prems t have i: "i < length cs" and d: "deref (cs ! i) p = Some n"
    by (auto split: if_splits)
  from Cons.prems(1) t i have "void_childless (cs ! i)" by simp
  from Cons.IH [OF this d] show ?case .
qed

section \<open>The renderer stays within defined behaviour\<close>

lemma on_return_simps [simp]:
  "on_return (Inl e) f = Inl e" "on_return (Inr x) f = f x"
  by (simp_all add: on_return_def)

lemma at_not_undefined: "at m k \<noteq> Inl Undefined_behaviour"
  by (simp add: at_def split: option.splits)

lemma stoi_not_undefined: "stoi s \<noteq> Inl Undefined_behaviour"
  by (simp add: stoi_def Let_def)

lemma ok_if:
  "(c \<Longrightarrow> child_result_ok a) \<Longrightarrow> (\<not> c \<Longrightarrow> child_result_ok b) \<Longrightarrow>
   child_result_ok (if c then a else b)"
  by simp

lemma ok_on_return:
  "r \<noteq> Inl Undefined_behaviour \<Longrightarrow> (\<And>x. child_result_ok (f x)) \<Longrightarrow>
   child_result_ok (on_return r f)"
  by (cases r) (simp_all add: child_result_ok_def)

lemma ok_Inr: "c \<noteq> [] \<Longrightarrow> child_result_ok (Inr (t, l, c))"
  by (simp add: child_result_ok_def)

lemma ok_Throws: "child_result_ok (Inl (Throws e))"
  by (simp add: child_result_ok_def)

lemma render_child_ok:
  assumes i: "inner \<noteq> Inl Undefined_behaviour" and t: "table_text \<noteq> Inl Undefined_behaviour"
    and c: "c \<noteq> []"
  shows "child_result_ok (render_child node_name list_prefix child inner table_text (l, c))"
proof (cases "type child")
  case ROOT
  with i c show ?thesis
    by (simp add: render_child_def ok_on_return ok_Inr)
next
  case TEXT
  with c show ?thesis
    by (simp add: render_child_def ok_Inr)
next
  case ELEMENT
  have basic: "child_result_ok
      (case map_of basic_markdown_tags (name child) of
         None \<Rightarrow> x
       | Some (pre, suf) \<Rightarrow> on_return inner (\<lambda>md. Inr (g pre suf md, l, c)))"
    if "child_result_ok x" for x g
    using that i c by (auto split: option.split intro!: ok_on_return ok_Inr)
  show ?thesis
    apply (simp only: render_child_def Let_def fst_conv snd_conv ELEMENT ASTNodeType.case)
    apply (intro ok_if basic ok_on_return ok_Inr ok_Throws i t c at_not_undefined
        stoi_not_undefined)
     apply (simp_all add: c)
    done
qed

lemma render_child_undefined_free:
  assumes "inner \<noteq> Inl Undefined_behaviour" and "table_text \<noteq> Inl Undefined_behaviour"
    and "snd lc \<noteq> []"
  shows "render_child node_name list_prefix child inner table_text lc \<noteq> Inl Undefined_behaviour"
    and "render_child node_name list_prefix child inner table_text lc = Inr (text, lc')
         \<Longrightarrow> snd lc' \<noteq> []"
proof -
  obtain l c where lc: "lc = (l, c)" by (cases lc)
  with assms(3) have "c \<noteq> []" by simp
  from render_child_ok [OF assms(1,2) this, of node_name list_prefix child l] lc
  have ok: "child_result_ok (render_child node_name list_prefix child inner table_text lc)"
    by simp
  then show "render_child node_name list_prefix child inner table_text lc \<noteq> Inl Undefined_behaviour"
    by (auto simp: child_result_ok_def)
  from ok show "snd lc' \<noteq> []"
    if "render_child node_name list_prefix child inner table_text lc = Inr (text, lc')"
    using that by (cases lc') (simp add: child_result_ok_def)
qed

lemma render_never_undefined:
  "AstToMarkdown node list_level \<noteq> Inl Undefined_behaviour"
  "snd lc \<noteq> [] \<Longrightarrow>
     children_loop node_name list_prefix cs markdown lc \<noteq> Inl Undefined_behaviour"
  "table_loop tcs acc \<noteq> Inl Undefined_behaviour"
  "rows_loop section_name rws acc' \<noteq> Inl Undefined_behaviour"
  "cells_loop in_thead cells rs \<noteq> Inl Undefined_behaviour"
proof (induction node list_level and node_name list_prefix cs markdown lc and tcs acc
    and section_name rws acc' and in_thead cells rs
    rule: AstToMarkdown_children_loop_table_loop_rows_loop_cells_loop.induct)
  case (1 node list_level)
  then show ?case by simp
next
  case (2 node_name list_prefix markdown lc)
  show ?case by simp
next
  case (3 node_name list_prefix child rest markdown lc)
  let ?tt = "on_return
               (table_loop (children child)
                  \<lparr>header_row = [], separator_row = [], body_rows = [], footer_rows = [],
                   caption_text = []\<rparr>)
               (\<lambda>t. Inr (caption_text t @ header_row t @ separator_row t @ body_rows t
                           @ footer_rows t))"
  let ?r = "render_child node_name list_prefix child (AstToMarkdown child 0) ?tt lc"
  from "3.IH"(2) have tt: "?tt \<noteq> Inl Undefined_behaviour"
    by (auto simp: on_return_def split: sum.splits)
  have r1: "?r \<noteq> Inl Undefined_behaviour"
    by (rule render_child_undefined_free(1) [OF "3.IH"(1) tt "3.prems"])
  have r2: "snd y \<noteq> []" if "?r = Inr (x, y)" for x y
    using that by (rule render_child_undefined_free(2) [OF "3.IH"(1) tt "3.prems"])
  show ?case
  proof (cases ?r)
    case (Inl e)
    with r1 show ?thesis by simp
  next
    case (Inr b)
    obtain x y where b: "b = (x, y)" by (cases b)
    from r2 [of x y] Inr b have "snd y \<noteq> []" by simp
    from "3.IH"(3) [OF Inr b [symmetric] this] Inr b show ?thesis by simp
  qed
next
  case (4 acc)
  show ?case by simp
next
  case (5 table_child rest acc)
  then show ?case by (auto simp: L_def split: sum.split prod.split)
next
  case (6 section_name acc)
  show ?case by simp
next
  case (7 section_name row rest acc)
  then show ?case by (auto simp: L_def split: sum.split prod.split)
next
  case (8 in_thead rs)
  show ?case by simp
next
  case (9 in_thead cell rest rs)
  then show ?case by (auto simp: L_def split: sum.split prod.split)
qed

lemma render_child_missing:
  assumes "type child = ELEMENT"
    and "map_of (attributes child) (L ''class'') \<noteq> Some (L ''hidden'')"
    and "required_attribute_missing child"
  shows "render_child node_name list_prefix child inner table_text lc = Inl (Throws Out_of_range)"
proof -
  consider
      "name child = L ''a''" "map_of (attributes child) (L ''href'') = None"
    | "name child = L ''img''" "map_of (attributes child) (L ''src'') = None"
    | "name child = L ''img''" "map_of (attributes child) (L ''alt'') = None"
    | "name child = L ''input''" "map_of (attributes child) (L ''type'') = None"
    | "name child = L ''label''" "map_of (attributes child) (L ''value'') = None"
    using assms(3) by (auto simp: required_attribute_missing_def)
  then show ?thesis
  proof cases
    case 1
    with assms(1,2) show ?thesis
      by (simp add: render_child_def at_def basic_markdown_tags_def L_def split del: if_split)
  next
    case 2
    with assms(1,2) show ?thesis
      by (simp add: render_child_def at_def basic_markdown_tags_def L_def split del: if_split)
  next
    case 3
    with assms(1,2) show ?thesis
      by (simp add: render_child_def at_def basic_markdown_tags_def L_def split del: if_split
          split: option.split)
  next
    case 4
    with assms(1,2) show ?thesis
      by (simp add: render_child_def at_def basic_markdown_tags_def L_def substr_def
          split del: if_split)
  next
    case 5
    with assms(1,2) show ?thesis
      by (simp add: render_child_def at_def basic_markdown_tags_def L_def substr_def
          split del: if_split)
  qed
qed

lemma children_loop_missing:
  assumes "child \<in> set cs" and "type child = ELEMENT"
    and "map_of (attributes child) (L ''class'') \<noteq> Some (L ''hidden'')"
    and "required_attribute_missing child" and "snd lc \<noteq> []"
  shows "\<exists>e. children_loop node_name list_prefix cs markdown lc = Inl (Throws e)"
  using assms(1,5)
proof (induction cs arbitrary: markdown lc)
  case Nil
  then show ?case by simp
next
  case (Cons c rest)
  let ?tt = "on_return
               (table_loop (children c)
                  \<lparr>header_row = [], separator_row = [], body_rows = [], footer_rows = [],
                   caption_text = []\<rparr>)
               (\<lambda>t. Inr (caption_text t @ header_row t @ separator_row t @ body_rows t
                           @ footer_rows t))"
  let ?r = "render_child node_name list_prefix c (AstToMarkdown c 0) ?tt lc"
  have tt: "?tt \<noteq> Inl Undefined_behaviour"
    using render_never_undefined(3) [of "children c"]
    by (auto simp: on_return_def split: sum.splits)
  have r1: "?r \<noteq> Inl Undefined_behaviour"
    by (rule render_child_undefined_free(1) [OF render_never_undefined(1) tt Cons.prems(2)])
  have r2: "snd y \<noteq> []" if "?r = Inr (x, y)" for x y
    using that
    by (rule render_child_undefined_free(2) [OF render_never_undefined(1) tt Cons.prems(2)])
  show ?case
  proof (cases ?r)
    case (Inl e)
    with r1 obtain x where "e = Throws x" by (cases e) auto
    with Inl show ?thesis by simp
  next
    case (Inr b)
    obtain x y where b: "b = (x, y)" by (cases b)
    from Inr render_child_missing [OF assms(2,3,4), of node_name list_prefix _ _ lc]
    have "c \<noteq> child" by auto
    with Cons.prems(1) have "child \<in> set rest" by simp
    from Cons.IH [OF this r2 [of x y], of "markdown @ x"] Inr b show ?thesis by simp
  qed
qed


section \<open>Single turns of the parser's loop\<close>

lemma find_sub_char_None: "c \<notin> set xs \<Longrightarrow> find_sub [c] xs = None"
  by (induction xs) auto

lemma find_sub_char_first:
  "c \<notin> set pre \<Longrightarrow> find_sub [c] (pre @ c # rest) = Some (length pre)"
  by (induction pre) auto

lemma wfind_char_None: "c \<notin> set s \<Longrightarrow> wfind s [c] 0 = None"
  by (simp add: wfind_def find_sub_char_None)

lemma wfind_char_first:
  assumes "drop i s = pre @ c # rest" and "c \<notin> set pre"
  shows "wfind s [c] i = Some (i + length pre)"
proof -
  from assms(1) have "i < length s" by (cases "i < length s") auto
  with assms show ?thesis by (simp add: wfind_def find_sub_char_first)
qed

lemma ParseHTMLToAST_no_amp:
  "0x26 \<notin> set html_input \<Longrightarrow>
   ParseHTMLToAST es html_input = ParseHTMLToAST html_entities html_input"
  by (simp add: ParseHTMLToAST_def ParseLoop_no_amp [of html_input es _ _ html_entities])

lemma slash_name_not_void: "nm @ L ''/'' \<notin> set self_closing_tags"
proof
  assume "nm @ L ''/'' \<in> set self_closing_tags"
  moreover have "\<forall>t \<in> set self_closing_tags. last t \<noteq> 0x2F"
    by (simp add: self_closing_tags_def L_def)
  ultimately have "last (nm @ L ''/'') \<noteq> 0x2F" by blast
  then show False by (simp add: L_def)
qed

lemma ParseTag_no_space: "0x20 \<notin> set tag \<Longrightarrow> ParseTag tag = (tag, [])"
  by (simp add: ParseTag_def L_def wfind_char_None)

lemma parse_element_tag_open:
  assumes "\<not> (tag \<noteq> [] \<and> tag ! 0 = 0x2F)" and "stack_back st = Inr (p, top_node)"
  shows "parse_element_tag tag st =
         Inr \<lparr>root = update_at p
                  (push_back_child
                     (ASTNode ELEMENT (fst (ParseTag tag)) []
                        (if snd (ParseTag tag) \<noteq> [] then ParseAttributes (snd (ParseTag tag))
                         else []) []))
                  (root st),
              stack = (if fst (ParseTag tag) \<notin> set self_closing_tags
                       then stack st @ [p @ [length (children top_node)]] else stack st)\<rparr>"
proof (cases "tag = []")
  case True
  with assms(2) show ?thesis
    by (cases "ParseTag []") (simp add: parse_element_tag_def Let_def)
next
  case False
  with assms(1) have "tag ! 0 \<noteq> 0x2F" by simp
  with False assms(2) show ?thesis
    by (cases "ParseTag tag") (simp add: parse_element_tag_def Let_def)
qed

lemma tag_at:
  assumes d: "drop i html_input = L ''<'' @ tag @ L ''>'' @ rest" and gt: "0x3E \<notin> set tag"
  shows "i < length html_input" and "to_char (html_input ! i) = 0x3C"
    and "wfind html_input (L ''>'') i = Some (i + length tag + 1)"
    and "substr html_input (i + 1) (i + length tag + 1 - i - 1) = tag"
proof -
  from d have d': "drop i html_input = (0x3C # tag) @ 0x3E # rest"
    by (simp add: L_def)
  from d' show lt: "i < length html_input"
    by (cases "i < length html_input") auto
  from d' lt have "html_input ! i = 0x3C"
    by (metis append_Cons nth_via_drop)
  then show "to_char (html_input ! i) = 0x3C"
    by (simp add: to_char_def)
  from gt have "0x3E \<notin> set (0x3C # tag)" by simp
  from wfind_char_first [OF d' this] show "wfind html_input (L ''>'') i = Some (i + length tag + 1)"
    by (simp add: L_def)
  have "drop (i + 1) html_input = drop 1 (drop i html_input)" by simp
  also have "\<dots> = tag @ 0x3E # rest" by (simp add: d')
  finally show "substr html_input (i + 1) (i + length tag + 1 - i - 1) = tag"
    by (simp add: substr_def)
qed



lemma parse_step_element:
  assumes "drop i html_input = L ''<'' @ tag @ L ''>'' @ rest" and "0x3E \<notin> set tag"
    and "substr tag 0 3 \<noteq> L ''!--''" and "tag \<notin> set skip_tags"
  shows "parse_step es html_input i st =
         (case parse_element_tag tag st of
            Inl e \<Rightarrow> Inl e
          | Inr st' \<Rightarrow> Inr (i + length tag + 2, st'))"
  using tag_at(2-4) [OF assms(1,2)] assms(3,4)
  by (cases "parse_element_tag tag st") (simp_all add: parse_step_def Let_def)

lemma ParseLoop_at_end: "ParseLoop es html_input (length html_input + k) st = Inr (root st)"
  by (simp add: ParseLoop.simps)

section \<open>Scans of spellings, characters and twice escaped spellings\<close>












section \<open>The turn of the renderer's loop at a code element\<close>

lemma code_child_turn:
  assumes "type child = ELEMENT" and "name child = L ''code''"
    and "map_of (attributes child) (L ''class'') \<noteq> Some (L ''hidden'')"
  shows "children_loop node_name list_prefix (child # rest) markdown lc =
         on_return (AstToMarkdown child 0) (\<lambda>inner.
           children_loop node_name list_prefix rest
             (markdown @ (if node_name \<noteq> [] \<and> node_name \<noteq> L ''pre''
                          then L ''```'' @ inner @ L ''```\<newline>'' else inner)) lc)"
proof -
  have chain: "render_child node_name list_prefix child inner table_text lc =
        (if node_name \<noteq> [] \<and> node_name \<noteq> L ''pre''
         then on_return inner (\<lambda>md. Inr (L ''```'' @ md @ L ''```\<newline>'', fst lc, snd lc))
         else on_return inner (\<lambda>md. Inr (md, fst lc, snd lc)))"
    for inner table_text
    using assms
    by (simp add: render_child_def basic_markdown_tags_def L_def Let_def split del: if_split)
  show ?thesis
    by (cases "AstToMarkdown child 0")
      (simp_all add: chain del: AstToMarkdown.simps)
qed

section \<open>The driver on a closing tag without a name\<close>

text \<open>
  C1 (the conversion is total: no exception escapes, and a failed parse returns the
  input unchanged). The handler of the driver catches every exception, but the parser
  can leave the domain of defined behaviour without throwing: the root has the empty
  name, so the closing tag \<^verbatim>\<open></>\<close> matches it when no element is open and pops the root
  from the stack; the next text or tag then reads \<^verbatim>\<open>stack.back()\<close> of an empty vector.
  On the input \<^verbatim>\<open><p></p></>x\<close>, which passes the gate of the driver, the conversion has
  no defined result, whatever the order of the entity table.
\<close>

theorem convert_undefined_after_root_popped:
  "ConvertHTMLToMarkdown es (L ''<p></p></>x'') = Inl Undefined_behaviour"
proof -
  have a: "0x26 \<notin> set (L ''<p></p></>x'')"
    by code_simp
  have "ConvertHTMLToMarkdown html_entities (L ''<p></p></>x'') = Inl Undefined_behaviour"
    by code_simp
  with Convert_no_amp [OF a, of es] show ?thesis
    by simp
qed

section \<open>Nested lists\<close>

text \<open>
  C5 (the indentation of a list item grows with the nesting depth). The renderer
  computes \<open>list_prefix\<close> from its argument \<open>list_level\<close> and increments \<open>list_level\<close> around
  the call for a nested list, but that call is \<^verbatim>\<open>AstToMarkdown(child)\<close>: the argument is
  left out and takes its default \<open>0\<close>, so that every prefix is empty. The nested list of
  the claim renders with the line of \<open>b\<close> at the same indentation as the line of \<open>a\<close>.
\<close>

theorem nested_list_not_indented:
  "ConvertHTMLToMarkdown es (L ''<ul><li>a<ul><li>b</li></ul></li></ul>'')
   = Inr (L ''\<newline>\<newline>- a\<newline>\<newline>- b'')"
proof -
  have a: "0x26 \<notin> set (L ''<ul><li>a<ul><li>b</li></ul></li></ul>'')"
    by code_simp
  have "ConvertHTMLToMarkdown html_entities (L ''<ul><li>a<ul><li>b</li></ul></li></ul>'')
        = Inr (L ''\<newline>\<newline>- a\<newline>\<newline>- b'')"
    by code_simp
  with Convert_no_amp [OF a, of es] show ?thesis
    by simp
qed

section \<open>Void elements\<close>

text \<open>
  C9 (in every tree produced by a successful parse, every element whose name is in the
  void-tag set has no children). The parser appends a void element to the node on top
  of the stack but does not push a pointer to it, so that no later append goes through
  it. For every input and every order of the entity table: if the parse returns the
  tree \<open>t\<close>, then every node of \<open>t\<close> (the node \<open>n\<close> at any path \<open>p\<close> from the root) whose
  name is in \<^verbatim>\<open>self_closing_tags\<close> has an empty sequence of children.
\<close>

theorem void_elements_have_no_children:
  assumes "ParseHTMLToAST es html_input = Inr t"
    and "deref t p = Some n"
    and "name n \<in> set self_closing_tags"
  shows "children n = []"
proof -
  have "open_nodes_ok \<lparr>root = ASTNode ROOT [] [] [] [], stack = [[]]\<rparr>"
    by (simp add: open_nodes_ok_def self_closing_tags_def L_def)
  with assms(1) have "void_childless t"
    unfolding ParseHTMLToAST_def by (rule ParseLoop_ok)
  from deref_void_childless [OF this assms(2)] assms(3) show ?thesis
    by (cases n) simp
qed

theorem void_elements_have_no_children_witness:
  "ParseHTMLToAST html_entities (L ''<p>a<br>b</p>'')
     = Inr (ASTNode ROOT [] [] []
             [ASTNode ELEMENT (L ''p'') [] []
               [ASTNode TEXT [] (L ''a'') [] [],
                ASTNode ELEMENT (L ''br'') [] [] [],
                ASTNode TEXT [] (L ''b'') [] []]])
   \<and> deref (ASTNode ROOT [] [] []
             [ASTNode ELEMENT (L ''p'') [] []
               [ASTNode TEXT [] (L ''a'') [] [],
                ASTNode ELEMENT (L ''br'') [] [] [],
                ASTNode TEXT [] (L ''b'') [] []]]) [0, 1]
     = Some (ASTNode ELEMENT (L ''br'') [] [] [])
   \<and> name (ASTNode ELEMENT (L ''br'') [] [] []) \<in> set self_closing_tags
   \<and> children (ASTNode ELEMENT (L ''br'') [] [] []) = []"
proof -
  have p: "ParseHTMLToAST html_entities (L ''<p>a<br>b</p>'')
     = Inr (ASTNode ROOT [] [] []
             [ASTNode ELEMENT (L ''p'') [] []
               [ASTNode TEXT [] (L ''a'') [] [],
                ASTNode ELEMENT (L ''br'') [] [] [],
                ASTNode TEXT [] (L ''b'') [] []]])"
    by code_simp
  have d: "deref (ASTNode ROOT [] [] []
             [ASTNode ELEMENT (L ''p'') [] []
               [ASTNode TEXT [] (L ''a'') [] [],
                ASTNode ELEMENT (L ''br'') [] [] [],
                ASTNode TEXT [] (L ''b'') [] []]]) [0, 1]
     = Some (ASTNode ELEMENT (L ''br'') [] [] [])"
    by simp
  have v: "name (ASTNode ELEMENT (L ''br'') [] [] []) \<in> set self_closing_tags"
    by (simp add: self_closing_tags_def)
  from p d v have "children (ASTNode ELEMENT (L ''br'') [] [] []) = []"
    by (rule void_elements_have_no_children)
  with p d v show ?thesis
    by (intro conjI)
qed

section \<open>Missing attributes\<close>

text \<open>
  C2, as the claim states it (the renderer never fails: a missing required attribute is
  replaced by the empty string and the rest of the render completes). The renderer
  reads the attribute with \<^verbatim>\<open>at\<close>, which throws: the tree of \<^verbatim>\<open><a>x</a>\<close>, a link without
  \<^verbatim>\<open>href\<close>, does not render to \<^verbatim>\<open>[x]()\<close>; the render ends with \<^verbatim>\<open>out_of_range\<close>.
\<close>

theorem render_link_without_href_throws:
  "AstToMarkdown
     (ASTNode ROOT [] [] []
       [ASTNode ELEMENT (L ''a'') [] [] [ASTNode TEXT [] (L ''x'') [] []]]) 0
   = Inl (Throws Out_of_range)"
  by code_simp

text \<open>
  C2, amended: when a node has a child element that is not hidden and is an \<^verbatim>\<open>a\<close> without
  \<^verbatim>\<open>href\<close>, an \<^verbatim>\<open>img\<close> without \<^verbatim>\<open>src\<close> or without \<^verbatim>\<open>alt\<close>, an \<^verbatim>\<open>input\<close> without \<^verbatim>\<open>type\<close> or a
  \<^verbatim>\<open>label\<close> without \<^verbatim>\<open>value\<close>, the render of the node ends with an exception (that of the
  missing attribute, unless an earlier child has thrown already); no text is
  substituted and nothing of the node is rendered.
\<close>

theorem missing_attribute_aborts_render:
  assumes "child \<in> set (children node)" and "type child = ELEMENT"
    and "map_of (attributes child) (L ''class'') \<noteq> Some (L ''hidden'')"
    and "required_attribute_missing child"
  shows "\<exists>e. AstToMarkdown node list_level = Inl (Throws e)"
  using children_loop_missing [OF assms, of "(list_level, [1])"] by simp

theorem missing_attribute_aborts_render_witness:
  "ASTNode ELEMENT (L ''img'') [] [(L ''src'', L ''u'')] []
     \<in> set (children (ASTNode ROOT [] [] []
                        [ASTNode TEXT [] (L ''t'') [] [],
                         ASTNode ELEMENT (L ''img'') [] [(L ''src'', L ''u'')] []]))
   \<and> type (ASTNode ELEMENT (L ''img'') [] [(L ''src'', L ''u'')] []) = ELEMENT
   \<and> map_of (attributes (ASTNode ELEMENT (L ''img'') [] [(L ''src'', L ''u'')] []))
        (L ''class'') \<noteq> Some (L ''hidden'')
   \<and> required_attribute_missing (ASTNode ELEMENT (L ''img'') [] [(L ''src'', L ''u'')] [])
   \<and> (\<exists>e. AstToMarkdown (ASTNode ROOT [] [] []
                             [ASTNode TEXT [] (L ''t'') [] [],
                              ASTNode ELEMENT (L ''img'') [] [(L ''src'', L ''u'')] []]) 0
            = Inl (Throws e))"
proof -
  have 1: "ASTNode ELEMENT (L ''img'') [] [(L ''src'', L ''u'')] []
     \<in> set (children (ASTNode ROOT [] [] []
                        [ASTNode TEXT [] (L ''t'') [] [],
                         ASTNode ELEMENT (L ''img'') [] [(L ''src'', L ''u'')] []]))"
    by simp
  have 2: "type (ASTNode ELEMENT (L ''img'') [] [(L ''src'', L ''u'')] []) = ELEMENT"
    by simp
  have 3: "map_of (attributes (ASTNode ELEMENT (L ''img'') [] [(L ''src'', L ''u'')] []))
        (L ''class'') \<noteq> Some (L ''hidden'')"
    by (simp add: L_def)
  have 4: "required_attribute_missing (ASTNode ELEMENT (L ''img'') [] [(L ''src'', L ''u'')] [])"
    by (simp add: required_attribute_missing_def L_def)
  from 1 2 3 4
  have "\<exists>e. AstToMarkdown (ASTNode ROOT [] [] []
                             [ASTNode TEXT [] (L ''t'') [] [],
                              ASTNode ELEMENT (L ''img'') [] [(L ''src'', L ''u'')] []]) 0
            = Inl (Throws e)"
    by (rule missing_attribute_aborts_render)
  with 1 2 3 4 show ?thesis
    by (intro conjI)
qed

section \<open>Code elements\<close>

text \<open>
  C7, as the claim states it (a \<^verbatim>\<open>code\<close> element whose parent is not \<^verbatim>\<open>pre\<close> is fenced,
  also directly under the root). The renderer fences only when the name of the parent
  is not empty, and the root has the empty name: the tree of \<^verbatim>\<open><code>x</code>\<close> renders to
  \<^verbatim>\<open>x\<close>, without a fence.
\<close>

theorem code_under_root_not_fenced:
  "AstToMarkdown
     (ASTNode ROOT [] [] []
       [ASTNode ELEMENT (L ''code'') [] [] [ASTNode TEXT [] (L ''x'') [] []]]) 0
   = Inr (L ''x'')"
  by code_simp

text \<open>
  C7, amended: whenever the loop of the renderer over the children of a node named
  \<open>node_name\<close> comes to a \<^verbatim>\<open>code\<close> element that is not hidden, it goes on with \<^verbatim>\<open>markdown\<close>
  extended by the rendered children of that element, wrapped in triple backticks with
  a trailing newline when \<open>node_name\<close> is neither empty nor \<^verbatim>\<open>pre\<close>, and unwrapped when
  \<open>node_name\<close> is \<^verbatim>\<open>pre\<close> or empty (the root); the render of a node whose first child is
  such an element begins in this way. The statement is about the \<^verbatim>\<open>code\<close> elements that
  this loop comes to, and about no others.
\<close>

theorem code_fence_by_parent_name:
  assumes "type child = ELEMENT" and "name child = L ''code''"
    and "map_of (attributes child) (L ''class'') \<noteq> Some (L ''hidden'')"
  shows "children_loop node_name list_prefix (child # rest) markdown lc =
         on_return (AstToMarkdown child 0) (\<lambda>inner.
           children_loop node_name list_prefix rest
             (markdown @ (if node_name \<noteq> [] \<and> node_name \<noteq> L ''pre''
                          then L ''```'' @ inner @ L ''```\<newline>'' else inner)) lc)
       \<and> AstToMarkdown (ASTNode ty node_name v as (child # rest)) list_level =
         on_return (AstToMarkdown child 0) (\<lambda>inner.
           children_loop node_name (replicate list_level 0x09) rest
             (if node_name \<noteq> [] \<and> node_name \<noteq> L ''pre''
              then L ''```'' @ inner @ L ''```\<newline>'' else inner) (list_level, [1]))"
proof -
  have "AstToMarkdown (ASTNode ty node_name v as (child # rest)) list_level =
        children_loop node_name (replicate list_level 0x09) (child # rest) [] (list_level, [1])"
    by simp
  then show ?thesis
    by (simp only: code_child_turn [OF assms] append_Nil simp_thms)
qed

theorem code_fence_by_parent_name_witness:
  "type (ASTNode ELEMENT (L ''code'') [] [] [ASTNode TEXT [] (L ''x'') [] []]) = ELEMENT
   \<and> name (ASTNode ELEMENT (L ''code'') [] [] [ASTNode TEXT [] (L ''x'') [] []]) = L ''code''
   \<and> map_of (attributes (ASTNode ELEMENT (L ''code'') [] [] [ASTNode TEXT [] (L ''x'') [] []]))
        (L ''class'') \<noteq> Some (L ''hidden'')
   \<and> children_loop (L ''p'') []
        [ASTNode ELEMENT (L ''code'') [] [] [ASTNode TEXT [] (L ''x'') [] []]] (L ''t'') (0, [1])
      = Inr (L ''t```x```\<newline>'')
   \<and> AstToMarkdown
        (ASTNode ELEMENT (L ''pre'') [] []
          [ASTNode ELEMENT (L ''code'') [] [] [ASTNode TEXT [] (L ''x'') [] []]]) 0
      = Inr (L ''x'')"
proof -
  have 1: "type (ASTNode ELEMENT (L ''code'') [] [] [ASTNode TEXT [] (L ''x'') [] []]) = ELEMENT"
    by simp
  have 2: "name (ASTNode ELEMENT (L ''code'') [] [] [ASTNode TEXT [] (L ''x'') [] []]) = L ''code''"
    by simp
  have 3: "map_of (attributes (ASTNode ELEMENT (L ''code'') [] [] [ASTNode TEXT [] (L ''x'') [] []]))
        (L ''class'') \<noteq> Some (L ''hidden'')"
    by simp
  have inner: "AstToMarkdown (ASTNode ELEMENT (L ''code'') [] [] [ASTNode TEXT [] (L ''x'') [] []]) 0
        = Inr (L ''x'')"
    by code_simp
  note turn = code_fence_by_parent_name [OF 1 2 3, THEN conjunct1]
    and node = code_fence_by_parent_name [OF 1 2 3, THEN conjunct2]
  have 4: "children_loop (L ''p'') []
        [ASTNode ELEMENT (L ''code'') [] [] [ASTNode TEXT [] (L ''x'') [] []]] (L ''t'') (0, [1])
      = Inr (L ''t```x```\<newline>'')"
    unfolding turn inner by (simp add: L_def)
  have 5: "AstToMarkdown
        (ASTNode ELEMENT (L ''pre'') [] []
          [ASTNode ELEMENT (L ''code'') [] [] [ASTNode TEXT [] (L ''x'') [] []]]) 0
      = Inr (L ''x'')"
    unfolding node inner by (simp add: L_def)
  from 1 2 3 4 5 show ?thesis
    by (intro conjI)
qed

section \<open>Unclosed elements\<close>

text \<open>
  C3, as the claim states it (an input with a non-void element still open at the end of
  the input fails to parse). The parser has no check at the end of the input: the
  input \<^verbatim>\<open><div>\<close> parses to the root with the \<^verbatim>\<open>div\<close> element as its child.
\<close>

theorem unclosed_div_parses:
  "ParseHTMLToAST html_entities (L ''<div>'')
   = Inr (ASTNode ROOT [] [] [] [ASTNode ELEMENT (L ''div'') [] [] []])"
  by code_simp

text \<open>
  C3, amended: an input whose opened elements are still unclosed at the end of the input
  parses successfully. For every opening tag (text \<open>tag\<close> without \<^verbatim>\<open>>\<close>, that is not a comment,
  a skipped tag or a closing tag) whose name is not a void tag, the input \<^verbatim>\<open><tag>\<close>
  takes one turn of the loop, which appends the element to the root and leaves a
  pointer to it on the stack, and the parse returns the root with that element; and
  whenever the loop is at or beyond the end of the input it returns the root, whatever
  the stack holds.
\<close>

theorem unclosed_element_parses:
  assumes "0x3E \<notin> set tag" and "substr tag 0 3 \<noteq> L ''!--''" and "tag \<notin> set skip_tags"
    and "\<not> (tag \<noteq> [] \<and> tag ! 0 = 0x2F)"
    and "fst (ParseTag tag) \<notin> set self_closing_tags"
  shows "parse_step es (L ''<'' @ tag @ L ''>'') 0 \<lparr>root = ASTNode ROOT [] [] [] [], stack = [[]]\<rparr>
         = Inr (length tag + 2,
                \<lparr>root = ASTNode ROOT [] [] []
                          [ASTNode ELEMENT (fst (ParseTag tag)) []
                             (if snd (ParseTag tag) \<noteq> [] then ParseAttributes (snd (ParseTag tag))
                              else []) []],
                 stack = [[], [0]]\<rparr>)
       \<and> ParseHTMLToAST es (L ''<'' @ tag @ L ''>'')
         = Inr (ASTNode ROOT [] [] []
                  [ASTNode ELEMENT (fst (ParseTag tag)) []
                     (if snd (ParseTag tag) \<noteq> [] then ParseAttributes (snd (ParseTag tag))
                      else []) []])
       \<and> ParseLoop es html_input (length html_input + k) st = Inr (root st)"
proof -
  let ?init = "\<lparr>root = ASTNode ROOT [] [] [] [], stack = [[]]\<rparr>"
  let ?html = "L ''<'' @ tag @ L ''>''"
  let ?st' = "\<lparr>root = ASTNode ROOT [] [] []
                          [ASTNode ELEMENT (fst (ParseTag tag)) []
                             (if snd (ParseTag tag) \<noteq> [] then ParseAttributes (snd (ParseTag tag))
                              else []) []],
                 stack = [[], [0]]\<rparr>"
  have d: "drop 0 ?html = L ''<'' @ tag @ L ''>'' @ []" by simp
  have b: "stack_back ?init = Inr ([], ASTNode ROOT [] [] [] [])"
    by (simp add: stack_back_def)
  have step: "parse_step es ?html 0 ?init = Inr (length tag + 2, ?st')"
    using assms(5)
    by (simp add: parse_step_element [OF d assms(1,2,3)] parse_element_tag_open [OF assms(4) b]
        push_back_child_def)
  have l0: "0 < length ?html" by (simp add: L_def)
  have len: "length tag + 2 = length ?html + 0" by (simp add: L_def)
  have s1: "ParseLoop es ?html 0 ?init = ParseLoop es ?html (length tag + 2) ?st'"
    using l0 by (subst ParseLoop.simps) (simp only: step if_True sum.case prod.case)
  have s2: "ParseLoop es ?html (length tag + 2) ?st' = Inr (root ?st')"
    by (simp only: len ParseLoop_at_end)
  have "ParseHTMLToAST es ?html = Inr (root ?st')"
    unfolding ParseHTMLToAST_def s1 s2 by simp
  with step ParseLoop_at_end show ?thesis by simp
qed

theorem unclosed_element_parses_witness:
  "0x3E \<notin> set (L ''div'') \<and> substr (L ''div'') 0 3 \<noteq> L ''!--''
   \<and> L ''div'' \<notin> set skip_tags \<and> \<not> (L ''div'' \<noteq> [] \<and> L ''div'' ! 0 = 0x2F)
   \<and> fst (ParseTag (L ''div'')) \<notin> set self_closing_tags
   \<and> parse_step html_entities (L ''<'' @ L ''div'' @ L ''>'') 0
        \<lparr>root = ASTNode ROOT [] [] [] [], stack = [[]]\<rparr>
      = Inr (5, \<lparr>root = ASTNode ROOT [] [] [] [ASTNode ELEMENT (L ''div'') [] [] []],
                 stack = [[], [0]]\<rparr>)
   \<and> ParseHTMLToAST html_entities (L ''<'' @ L ''div'' @ L ''>'')
      = Inr (ASTNode ROOT [] [] [] [ASTNode ELEMENT (L ''div'') [] [] []])"
proof -
  have 1: "0x3E \<notin> set (L ''div'')" by (simp add: L_def)
  have 2: "substr (L ''div'') 0 3 \<noteq> L ''!--''" by (simp add: L_def substr_def)
  have 3: "L ''div'' \<notin> set skip_tags" by (simp add: L_def skip_tags_def)
  have 4: "\<not> (L ''div'' \<noteq> [] \<and> L ''div'' ! 0 = 0x2F)" by (simp add: L_def)
  have pt: "ParseTag (L ''div'') = (L ''div'', [])" by code_simp
  have 5: "fst (ParseTag (L ''div'')) \<notin> set self_closing_tags"
    by (simp add: pt) (simp add: L_def self_closing_tags_def)
  from unclosed_element_parses [OF 1 2 3 4 5, of html_entities "[]" 0
      "\<lparr>root = ASTNode ROOT [] [] [] [], stack = [[]]\<rparr>"] 1 2 3 4 5
  show ?thesis
    by (simp add: pt) (simp add: L_def)
qed

section \<open>Skipped tags\<close>




section \<open>Entities decoded twice\<close>




section \<open>The gate of the driver\<close>

text \<open>
  C6, as the claim states it (converting \<^verbatim>\<open><strong>x</strong>\<close> yields \<^verbatim>\<open>**x**\<close>). The input
  has none of the tag openers that the driver looks for, so the driver does not parse
  it, and the output is not \<^verbatim>\<open>**x**\<close>.
\<close>

theorem convert_strong_alone_not_bold:
  "ConvertHTMLToMarkdown html_entities (L ''<strong>x</strong>'') \<noteq> Inr (L ''**x**'')"
  by code_simp

text \<open>
  C6, amended: converting \<^verbatim>\<open><strong>x</strong>\<close> returns the input unchanged, because it
  contains none of the tag openers of the driver's check; parsing and rendering it, as
  the driver does behind the check, yields \<^verbatim>\<open>**x**\<close>, and so converting
  \<^verbatim>\<open><p><strong>x</strong></p>\<close> yields two newlines, \<^verbatim>\<open>**x**\<close> and a newline.
\<close>

theorem strong_behind_the_gate:
  "ConvertHTMLToMarkdown es (L ''<strong>x</strong>'') = Inr (L ''<strong>x</strong>'')
   \<and> on_return (ParseHTMLToAST es (L ''<strong>x</strong>'')) (\<lambda>ast. AstToMarkdown ast 0)
     = Inr (L ''**x**'')
   \<and> ConvertHTMLToMarkdown es (L ''<p><strong>x</strong></p>'') = Inr (L ''\<newline>\<newline>**x**\<newline>'')"
proof -
  have a: "0x26 \<notin> set (L ''<strong>x</strong>'')" "0x26 \<notin> set (L ''<p><strong>x</strong></p>'')"
    by code_simp+
  have "ConvertHTMLToMarkdown html_entities (L ''<strong>x</strong>'')
        = Inr (L ''<strong>x</strong>'')"
    by code_simp
  moreover
  have "on_return (ParseHTMLToAST html_entities (L ''<strong>x</strong>''))
          (\<lambda>ast. AstToMarkdown ast 0) = Inr (L ''**x**'')"
    by code_simp
  moreover
  have "ConvertHTMLToMarkdown html_entities (L ''<p><strong>x</strong></p>'')
        = Inr (L ''\<newline>\<newline>**x**\<newline>'')"
    by code_simp
  ultimately show ?thesis
    by (simp only: Convert_no_amp [OF a(1), of es] Convert_no_amp [OF a(2), of es]
        ParseHTMLToAST_no_amp [OF a(1), of es])
qed

section \<open>A slash before the closing bracket\<close>

text \<open>
  C10 (the syntax \<^verbatim>\<open><name/>\<close> is not recognised). For every tag text \<open>nm\<close> followed by a
  slash, where \<open>nm\<close> has no space, is not empty and does not start with a slash: the
  parsed tag name is \<open>nm\<close> with the slash and there are no attributes; that name is not
  in \<^verbatim>\<open>self_closing_tags\<close>; and the element is appended to the node on top of the stack
  and a pointer to it is pushed. So \<^verbatim>\<open><div><br/></div>\<close> fails to parse, since the closing
  tag of the \<^verbatim>\<open>div\<close> meets the open element \<^verbatim>\<open>br/\<close>, and the conversion returns the input;
  with a space, \<^verbatim>\<open><br />\<close> is the void element \<^verbatim>\<open>br\<close>, a child of the \<^verbatim>\<open>div\<close> without children
  of its own, and the conversion yields a newline.
\<close>

theorem slash_kept_in_tag_name:
  assumes "0x20 \<notin> set nm" and "nm \<noteq> []" and "nm ! 0 \<noteq> 0x2F"
    and "stack_back st = Inr (p, top_node)"
  shows "ParseTag (nm @ L ''/'') = (nm @ L ''/'', [])
       \<and> nm @ L ''/'' \<notin> set self_closing_tags
       \<and> parse_element_tag (nm @ L ''/'') st
         = Inr \<lparr>root = update_at p (push_back_child (ASTNode ELEMENT (nm @ L ''/'') [] [] []))
                         (root st),
                stack = stack st @ [p @ [length (children top_node)]]\<rparr>
       \<and> ParseHTMLToAST es (L ''<div><br/></div>'') = Inl (Throws Runtime_error)
       \<and> ConvertHTMLToMarkdown es (L ''<div><br/></div>'') = Inr (L ''<div><br/></div>'')
       \<and> ParseHTMLToAST es (L ''<div><br /></div>'')
         = Inr (ASTNode ROOT [] [] []
                 [ASTNode ELEMENT (L ''div'') [] [] [ASTNode ELEMENT (L ''br'') [] [] []]])
       \<and> ConvertHTMLToMarkdown es (L ''<div><br /></div>'') = Inr (L ''\<newline>'')"
proof -
  from assms(1) have pt: "ParseTag (nm @ L ''/'') = (nm @ L ''/'', [])"
    by (intro ParseTag_no_space) (simp add: L_def)
  from assms(2,3) have nc: "\<not> (nm @ L ''/'' \<noteq> [] \<and> (nm @ L ''/'') ! 0 = 0x2F)"
    by (simp add: nth_append)
  have el: "parse_element_tag (nm @ L ''/'') st
         = Inr \<lparr>root = update_at p (push_back_child (ASTNode ELEMENT (nm @ L ''/'') [] [] []))
                         (root st),
                stack = stack st @ [p @ [length (children top_node)]]\<rparr>"
    by (simp add: parse_element_tag_open [OF nc assms(4)] pt slash_name_not_void)
  have a: "0x26 \<notin> set (L ''<div><br/></div>'')" "0x26 \<notin> set (L ''<div><br /></div>'')"
    by code_simp+
  have "ParseHTMLToAST html_entities (L ''<div><br/></div>'') = Inl (Throws Runtime_error)"
    by code_simp
  then have 1: "ParseHTMLToAST es (L ''<div><br/></div>'') = Inl (Throws Runtime_error)"
    by (simp only: ParseHTMLToAST_no_amp [OF a(1), of es])
  have "ConvertHTMLToMarkdown html_entities (L ''<div><br/></div>'')
        = Inr (L ''<div><br/></div>'')"
    by code_simp
  then have 2: "ConvertHTMLToMarkdown es (L ''<div><br/></div>'') = Inr (L ''<div><br/></div>'')"
    by (simp only: Convert_no_amp [OF a(1), of es])
  have "ParseHTMLToAST html_entities (L ''<div><br /></div>'')
         = Inr (ASTNode ROOT [] [] []
                 [ASTNode ELEMENT (L ''div'') [] [] [ASTNode ELEMENT (L ''br'') [] [] []]])"
    by code_simp
  then have 3: "ParseHTMLToAST es (L ''<div><br /></div>'')
         = Inr (ASTNode ROOT [] [] []
                 [ASTNode ELEMENT (L ''div'') [] [] [ASTNode ELEMENT (L ''br'') [] [] []]])"
    by (simp only: ParseHTMLToAST_no_amp [OF a(2), of es])
  have "ConvertHTMLToMarkdown html_entities (L ''<div><br /></div>'') = Inr (L ''\<newline>'')"
    by code_simp
  then have 4: "ConvertHTMLToMarkdown es (L ''<div><br /></div>'') = Inr (L ''\<newline>'')"
    by (simp only: Convert_no_amp [OF a(2), of es])
  from pt slash_name_not_void [of nm] el 1 2 3 4 show ?thesis
    by (intro conjI)
qed

theorem slash_kept_in_tag_name_witness:
  "0x20 \<notin> set (L ''br'') \<and> L ''br'' \<noteq> [] \<and> L ''br'' ! 0 \<noteq> 0x2F
   \<and> stack_back \<lparr>root = ASTNode ROOT [] [] [] [], stack = [[]]\<rparr>
       = Inr ([], ASTNode ROOT [] [] [] [])
   \<and> ParseTag (L ''br'' @ L ''/'') = (L ''br'' @ L ''/'', [])
   \<and> L ''br'' @ L ''/'' \<notin> set self_closing_tags
   \<and> parse_element_tag (L ''br'' @ L ''/'') \<lparr>root = ASTNode ROOT [] [] [] [], stack = [[]]\<rparr>
       = Inr \<lparr>root = ASTNode ROOT [] [] [] [ASTNode ELEMENT (L ''br'' @ L ''/'') [] [] []],
              stack = [[], [0]]\<rparr>"
proof -
  have 1: "0x20 \<notin> set (L ''br'')" by (simp add: L_def)
  have 2: "L ''br'' \<noteq> []" by (simp add: L_def)
  have 3: "L ''br'' ! 0 \<noteq> 0x2F" by (simp add: L_def)
  have 4: "stack_back \<lparr>root = ASTNode ROOT [] [] [] [], stack = [[]]\<rparr>
       = Inr ([], ASTNode ROOT [] [] [] [])"
    by (simp add: stack_back_def)
  from slash_kept_in_tag_name [OF 1 2 3 4, of html_entities] 1 2 3 4 show ?thesis
    by (simp add: push_back_child_def)
qed

end
